theory Spec2Isabelle
  imports Main "HOL-Library.Char_ord" "HOL-Library.List_Lexorder" "HOL-Library.AList"
begin

section \<open>The course catalog of catalog.cpp\<close>

text \<open>
  The development follows \<^verbatim>\<open>catalog.cpp\<close> and \<^verbatim>\<open>catalog.hpp\<close>.
  A \<^verbatim>\<open>std::string\<close> is a \<^typ>\<open>string\<close>, a list of 8-bit characters; the order
  of \<^verbatim>\<open>std::string\<close> (bytes compared as unsigned values, a proper prefix first) is the
  lexicographic order on lists over the order of \<^typ>\<open>char\<close> by code.
\<close>

subsection \<open>Character classes of the C library\<close>

text \<open>
  \<^verbatim>\<open>std::isalpha\<close>, \<^verbatim>\<open>std::isdigit\<close> and \<^verbatim>\<open>std::toupper\<close> on an
  \<^verbatim>\<open>unsigned char\<close>, in the "C" locale: the letters are the 52 ASCII letters, the
  digits are \<^verbatim>\<open>0\<close> to \<^verbatim>\<open>9\<close>, and only \<^verbatim>\<open>a\<close> to \<^verbatim>\<open>z\<close> have an
  upper-case form.
\<close>

definition isalpha :: "char \<Rightarrow> bool" where
  "isalpha ch =
     (let n = (of_char ch :: nat) in (65 \<le> n \<and> n \<le> 90) \<or> (97 \<le> n \<and> n \<le> 122))"

definition isdigit :: "char \<Rightarrow> bool" where
  "isdigit ch = (let n = (of_char ch :: nat) in 48 \<le> n \<and> n \<le> 57)"

definition toupper :: "char \<Rightarrow> char" where
  "toupper ch =
     (let n = (of_char ch :: nat) in if 97 \<le> n \<and> n \<le> 122 then char_of (n - 32) else ch)"

subsection \<open>trim, toUpper, isCourseIdValid\<close>

text \<open>
  \<^verbatim>\<open>find_first_not_of\<close> and \<^verbatim>\<open>find_last_not_of\<close> return an index, or
  \<^verbatim>\<open>npos\<close> (here \<open>None\<close>) when every character is in the set.
\<close>

fun find_first_not_of :: "string \<Rightarrow> string \<Rightarrow> nat option" where
  "find_first_not_of chars [] = None"
| "find_first_not_of chars (c # cs) =
     (if c \<in> set chars then map_option Suc (find_first_not_of chars cs) else Some 0)"

definition find_last_not_of :: "string \<Rightarrow> string \<Rightarrow> nat option" where
  "find_last_not_of chars text =
     (case find_first_not_of chars (rev text) of
        None \<Rightarrow> None
      | Some k \<Rightarrow> Some (length text - 1 - k))"

definition whitespace :: string where
  "whitespace = [CHR '' '', CHR 0x09, CHR 0x0D, CHR 0x0A]"

definition trim :: "string \<Rightarrow> string" where
  "trim text =
     (case find_first_not_of whitespace text of
        None \<Rightarrow> []
      | Some firstIx \<Rightarrow>
          (case find_last_not_of whitespace text of
             None \<Rightarrow> []
           | Some lastIx \<Rightarrow> take (lastIx - firstIx + 1) (drop firstIx text)))"

definition toUpper :: "string \<Rightarrow> string" where
  "toUpper v = map toupper v"

text \<open>
  The loop of \<^verbatim>\<open>isCourseIdValid\<close> with its two flags; each \<^verbatim>\<open>return false\<close>
  inside the loop is a branch that stops the scan.
\<close>

fun idScan :: "bool \<Rightarrow> bool \<Rightarrow> string \<Rightarrow> bool" where
  "idScan hasLetter hasDigit [] = (hasLetter \<and> hasDigit)"
| "idScan hasLetter hasDigit (ch # rest) =
     (if isalpha ch then (if hasDigit then False else idScan True hasDigit rest)
      else if isdigit ch then idScan hasLetter True rest
      else False)"

definition isCourseIdValid :: "string \<Rightarrow> bool" where
  "isCourseIdValid courseId = (if courseId = [] then False else idScan False False courseId)"

text \<open>
  The shape of an identifier in the words of the specification: not empty, only letters
  and digits, at least one letter, at least one digit, and no letter at a position after
  a digit.
\<close>

definition no_letter_after_digit :: "string \<Rightarrow> bool" where
  "no_letter_after_digit tok \<longleftrightarrow>
     (\<forall>i j. i < j \<and> j < length tok \<and> isdigit (tok ! i) \<longrightarrow> \<not> isalpha (tok ! j))"

definition id_shape :: "string \<Rightarrow> bool" where
  "id_shape tok \<longleftrightarrow>
     tok \<noteq> [] \<and>
     (\<forall>c \<in> set tok. isalpha c \<or> isdigit c) \<and>
     (\<exists>c \<in> set tok. isalpha c) \<and>
     (\<exists>c \<in> set tok. isdigit c) \<and>
     no_letter_after_digit tok"

subsection \<open>Streams and numbers of the standard library\<close>

text \<open>
  \<^verbatim>\<open>std::getline(stream, s, delim)\<close> on the rest of a stream fails when no character
  is left; otherwise it takes the characters before the first delimiter and removes that
  delimiter from the stream. The loops \<^verbatim>\<open>while (std::getline(...))\<close> read until it fails.
\<close>

definition getline :: "char \<Rightarrow> string \<Rightarrow> (string \<times> string) option" where
  "getline delim s =
     (if s = [] then None
      else Some (takeWhile (\<lambda>c. c \<noteq> delim) s, drop 1 (dropWhile (\<lambda>c. c \<noteq> delim) s)))"

function getlines :: "char \<Rightarrow> string \<Rightarrow> string list" where
  "getlines delim s =
     (case getline delim s of
        None \<Rightarrow> []
      | Some (l, rest) \<Rightarrow> l # getlines delim rest)"
  by pat_completeness auto
termination
proof (relation "measure (\<lambda>(delim, s). length s)", goal_cases)
  case 1
  show ?case by simp
next
  case (2 delim s x2 x y)
  have "length (dropWhile (\<lambda>c. c \<noteq> delim) s) \<le> length s"
    by (rule length_dropWhile_le)
  moreover from 2 have "s \<noteq> []" and "y = drop 1 (dropWhile (\<lambda>c. c \<noteq> delim) s)"
    by (auto simp: getline_def split: if_splits)
  ultimately show ?case
    by (cases s) auto
qed

declare getlines.simps [simp del]

text \<open>\<^verbatim>\<open>std::to_string\<close> of an unsigned number: its decimal digits.\<close>

definition digit_char :: "nat \<Rightarrow> char" where
  "digit_char d = char_of (48 + d)"

fun to_string :: "nat \<Rightarrow> string" where
  "to_string n = (if n < 10 then [digit_char n] else to_string (n div 10) @ [digit_char (n mod 10)])"

declare to_string.simps [simp del]

subsection \<open>Course, LoadResult, Catalog\<close>

record Course =
  courseNumber :: string
  courseName :: string
  prerequisites :: "string list"

record LoadResult =
  ok :: bool
  courses :: nat
  warnings :: "string list"
  missingPrerequisites :: "string list"
  path :: string

text \<open>A default-constructed \<^verbatim>\<open>LoadResult\<close>.\<close>

definition newLoadResult :: LoadResult where
  "newLoadResult = \<lparr>ok = False, courses = 0, warnings = [], missingPrerequisites = [], path = []\<rparr>"

text \<open>
  The \<^verbatim>\<open>std::unordered_map\<close> of the catalog is an association list with one pair for
  each key: \<open>AList.update\<close> is \<^verbatim>\<open>m[k] = v\<close>, \<open>map_of\<close> is \<^verbatim>\<open>find\<close>. The order in which
  the C++ map is traversed is not fixed; the code passes every traversal through a
  \<^verbatim>\<open>std::set\<close> or \<^verbatim>\<open>std::sort\<close>, and the theorems below state the results by sets.
\<close>

record Catalog =
  courseDirectory :: "(string \<times> Course) list"
  sortedCourseIds :: "string list"

definition newCatalog :: Catalog where
  "newCatalog = \<lparr>courseDirectory = [], sortedCourseIds = []\<rparr>"

subsection \<open>The file system\<close>

text \<open>
  The operations of \<^verbatim>\<open>std::filesystem\<close> and \<^verbatim>\<open>std::ifstream\<close> that the loader
  calls, as the environment of a load. Paths are strings. \<open>fs_open p\<close> is \<open>None\<close> when the
  stream does not open and the bytes of the file otherwise. The operations are taken to
  return normally.
\<close>

record filesystem =
  fs_is_absolute :: "string \<Rightarrow> bool"
  fs_exists :: "string \<Rightarrow> bool"
  fs_absolute :: "string \<Rightarrow> string"
  fs_current_path :: string
  fs_append :: "string \<Rightarrow> string \<Rightarrow> string"
  fs_has_parent_path :: "string \<Rightarrow> bool"
  fs_parent_path :: "string \<Rightarrow> string"
  fs_open :: "string \<Rightarrow> string option"

definition kMaxParentSearchDepth :: int where
  "kMaxParentSearchDepth = 10"

text \<open>The \<^verbatim>\<open>for\<close> loop of \<^verbatim>\<open>resolveCourseFilePath\<close> over the parent directories.\<close>

function searchLoop :: "filesystem \<Rightarrow> string \<Rightarrow> int \<Rightarrow> string \<Rightarrow> string option" where
  "searchLoop fs requested depth searchDir =
     (if depth < kMaxParentSearchDepth then
        (let candidate = fs_append fs searchDir requested in
         if fs_exists fs candidate then Some (fs_absolute fs candidate)
         else if \<not> fs_has_parent_path fs searchDir then None
         else searchLoop fs requested (depth + 1) (fs_parent_path fs searchDir))
      else None)"
  by pat_completeness auto
termination
  by (relation "measure (\<lambda>(fs, requested, depth, searchDir). nat (kMaxParentSearchDepth - depth))")
     (auto simp: kMaxParentSearchDepth_def)

declare searchLoop.simps [simp del]

definition resolveCourseFilePath :: "filesystem \<Rightarrow> string \<Rightarrow> string option" where
  "resolveCourseFilePath fs fileName =
     (if fileName = [] then None
      else if fs_is_absolute fs fileName then
        (if fs_exists fs fileName then Some (fs_absolute fs fileName) else None)
      else if fs_exists fs fileName then Some (fs_absolute fs fileName)
      else searchLoop fs fileName 0 (fs_current_path fs))"

subsection \<open>Catalog::load\<close>

text \<open>
  The loop over the columns from the third on. Its state is the set \<^verbatim>\<open>seenPrereqs\<close>
  (a \<^verbatim>\<open>std::set\<close>: a sorted list without repetition), the prerequisites accepted so far
  and the warnings.
\<close>

type_synonym prereqState = "string list \<times> string list \<times> string list"

definition invalidPrereqWarning :: "string \<Rightarrow> string \<Rightarrow> string" where
  "invalidPrereqWarning column courseNum =
     ''Skipping invalid prerequisite '' @ [CHR 0x27] @ column @ [CHR 0x27] @
     '' for course '' @ courseNum @ ''.''"

definition duplicatePrereqWarning :: "string \<Rightarrow> string \<Rightarrow> string" where
  "duplicatePrereqWarning prereqId courseNum =
     ''Duplicate prerequisite '' @ [CHR 0x27] @ prereqId @ [CHR 0x27] @
     '' ignored for course '' @ courseNum @ ''.''"

definition prereqStep :: "string \<Rightarrow> string \<Rightarrow> prereqState \<Rightarrow> prereqState" where
  "prereqStep courseNum column st =
     (case st of (seenPrereqs, prereqs, warns) \<Rightarrow>
        if column = [] then st
        else
          (let prereqId = toUpper column in
           if \<not> isCourseIdValid prereqId then
             (seenPrereqs, prereqs, warns @ [invalidPrereqWarning column courseNum])
           else if prereqId \<in> set seenPrereqs then
             (seenPrereqs, prereqs, warns @ [duplicatePrereqWarning prereqId courseNum])
           else (insort_insert prereqId seenPrereqs, prereqs @ [prereqId], warns)))"

definition prereqLoop :: "string \<Rightarrow> string list \<Rightarrow> string list \<Rightarrow> prereqState" where
  "prereqLoop courseNum columns warns =
     fold (prereqStep courseNum) (drop 2 columns) ([], [], warns)"

text \<open>The columns of a line: the cells between commas, each trimmed.\<close>

definition splitColumns :: "string \<Rightarrow> string list" where
  "splitColumns line = map trim (getlines (CHR '','') line)"

record loadState =
  lineNumber :: nat
  loadedCourseDirectory :: "(string \<times> Course) list"
  loadWarnings :: "string list"

definition tooFewColumnsWarning :: "nat \<Rightarrow> string" where
  "tooFewColumnsWarning n = ''Skipping line '' @ to_string n @ '': expected course ID and name.''"

definition invalidIdWarning :: "nat \<Rightarrow> string \<Rightarrow> string" where
  "invalidIdWarning n column =
     ''Skipping line '' @ to_string n @ '': invalid course ID '' @ [CHR 0x27] @ column @
     [CHR 0x27] @ ''.''"

definition replacingWarning :: "string \<Rightarrow> string" where
  "replacingWarning courseNum = ''Replacing existing course entry for '' @ courseNum @ ''.''"

text \<open>The body of the \<^verbatim>\<open>while\<close> loop of \<^verbatim>\<open>Catalog::load\<close>, for one line read.\<close>

definition loadLine :: "string \<Rightarrow> loadState \<Rightarrow> loadState" where
  "loadLine rawLine st =
     (let n = lineNumber st + 1;
          line = trim rawLine
      in if line = [] then st\<lparr>lineNumber := n\<rparr>
         else
           (let columns = splitColumns line in
            if length columns < 2 then
              st\<lparr>lineNumber := n, loadWarnings := loadWarnings st @ [tooFewColumnsWarning n]\<rparr>
            else
              (let courseId = toUpper (columns ! 0) in
               if \<not> isCourseIdValid courseId then
                 st\<lparr>lineNumber := n,
                    loadWarnings := loadWarnings st @ [invalidIdWarning n (columns ! 0)]\<rparr>
               else
                 (case prereqLoop courseId columns (loadWarnings st) of
                    (seenPrereqs, prereqs, warns) \<Rightarrow>
                      (let course = \<lparr>courseNumber = courseId, courseName = columns ! 1,
                                     prerequisites = prereqs\<rparr>;
                           warns' = (if map_of (loadedCourseDirectory st) courseId \<noteq> None
                                     then warns @ [replacingWarning courseId] else warns)
                       in \<lparr>lineNumber = n,
                           loadedCourseDirectory =
                             AList.update courseId course (loadedCourseDirectory st),
                           loadWarnings = warns'\<rparr>)))))"

definition newLoadState :: loadState where
  "newLoadState = \<lparr>lineNumber = 0, loadedCourseDirectory = [], loadWarnings = []\<rparr>"

definition loadLines :: "string list \<Rightarrow> loadState" where
  "loadLines ls = fold loadLine ls newLoadState"

text \<open>The pass over the loaded courses that collects the missing prerequisites in a \<^verbatim>\<open>std::set\<close>.\<close>

definition missingEntry :: "string \<Rightarrow> string \<Rightarrow> string" where
  "missingEntry prereq courseId = prereq @ '' (referenced by '' @ courseId @ '')''"

definition missingStep ::
  "(string \<times> Course) list \<Rightarrow> string \<times> Course \<Rightarrow> string list \<Rightarrow> string list" where
  "missingStep dir entry missingSet =
     fold (\<lambda>prereq ms. if map_of dir prereq = None
                        then insort_insert (missingEntry prereq (fst entry)) ms else ms)
          (prerequisites (snd entry)) missingSet"

definition collectMissing :: "(string \<times> Course) list \<Rightarrow> string list" where
  "collectMissing dir = fold (missingStep dir) dir []"

definition load :: "filesystem \<Rightarrow> Catalog \<Rightarrow> string \<Rightarrow> LoadResult \<times> Catalog" where
  "load fs cat fileName =
     (if fileName = [] then (newLoadResult\<lparr>warnings := [''File name is empty.'']\<rparr>, cat)
      else
        (case resolveCourseFilePath fs fileName of
           None \<Rightarrow>
             (newLoadResult\<lparr>warnings := [''Unable to locate file: '' @ fileName],
                             path := fileName\<rparr>, cat)
         | Some resolvedPath \<Rightarrow>
             (case fs_open fs resolvedPath of
                None \<Rightarrow>
                  (newLoadResult\<lparr>path := resolvedPath,
                                  warnings := [''Unable to open file: '' @ resolvedPath]\<rparr>, cat)
              | Some input \<Rightarrow>
                  (let st = loadLines (getlines (CHR 0x0A) input);
                       dir = loadedCourseDirectory st
                   in if dir = [] then
                        (newLoadResult\<lparr>path := resolvedPath, warnings := loadWarnings st\<rparr>, cat)
                      else
                        (newLoadResult\<lparr>path := resolvedPath, ok := True,
                                        courses := length dir,
                                        missingPrerequisites := collectMissing dir,
                                        warnings := loadWarnings st\<rparr>,
                         cat\<lparr>courseDirectory := dir,
                             sortedCourseIds := sort (map fst dir)\<rparr>)))))"

definition get :: "Catalog \<Rightarrow> string \<Rightarrow> Course option" where
  "get cat ident = map_of (courseDirectory cat) ident"

definition ids :: "Catalog \<Rightarrow> string list" where
  "ids cat = sortedCourseIds cat"

subsection \<open>Notions of the specification\<close>

text \<open>
  A line defines a course when it is not blank, has at least two columns and its first
  column, in upper case, is a valid identifier; \<open>lineCourseId\<close> and \<open>lineCourse\<close> are the
  identifier and the record that such a line defines on its own.
\<close>

definition definesCourse :: "string \<Rightarrow> bool" where
  "definesCourse rawLine \<longleftrightarrow>
     trim rawLine \<noteq> [] \<and> 2 \<le> length (splitColumns (trim rawLine)) \<and>
     isCourseIdValid (toUpper (splitColumns (trim rawLine) ! 0))"

definition lineCourseId :: "string \<Rightarrow> string" where
  "lineCourseId rawLine = toUpper (splitColumns (trim rawLine) ! 0)"

text \<open>
  The field at position \<open>i\<close> among the prerequisite fields is kept when it is not empty,
  is valid in upper case and no earlier field has the same upper-case form.
\<close>

definition keepsField :: "string list \<Rightarrow> nat \<Rightarrow> bool" where
  "keepsField flds i \<longleftrightarrow>
     flds ! i \<noteq> [] \<and> isCourseIdValid (toUpper (flds ! i)) \<and>
     toUpper (flds ! i) \<notin> toUpper ` set (take i flds)"

definition keptPrereqs :: "string list \<Rightarrow> string list" where
  "keptPrereqs flds =
     map (\<lambda>i. toUpper (flds ! i)) (filter (keepsField flds) [0..<length flds])"

definition fieldWarnings :: "string \<Rightarrow> string list \<Rightarrow> nat \<Rightarrow> string list" where
  "fieldWarnings courseNum flds i =
     (if flds ! i = [] then []
      else if \<not> isCourseIdValid (toUpper (flds ! i)) then
        [invalidPrereqWarning (flds ! i) courseNum]
      else if toUpper (flds ! i) \<in> toUpper ` set (take i flds) then
        [duplicatePrereqWarning (toUpper (flds ! i)) courseNum]
      else [])"

definition prereqWarnings :: "string \<Rightarrow> string list \<Rightarrow> string list" where
  "prereqWarnings courseNum flds =
     concat (map (fieldWarnings courseNum flds) [0..<length flds])"

definition lineCourse :: "string \<Rightarrow> Course" where
  "lineCourse rawLine =
     \<lparr>courseNumber = lineCourseId rawLine,
      courseName = splitColumns (trim rawLine) ! 1,
      prerequisites = keptPrereqs (drop 2 (splitColumns (trim rawLine)))\<rparr>"

text \<open>The lines of a file that define the identifier \<open>k\<close>, in the order of the file.\<close>

definition linesDefining :: "string \<Rightarrow> string list \<Rightarrow> string list" where
  "linesDefining k ls = filter (\<lambda>l. definesCourse l \<and> lineCourseId l = k) ls"

text \<open>
  The directories that the search of \<^verbatim>\<open>resolveCourseFilePath\<close> visits: the given one and
  its parents, at most \<open>n\<close> of them, stopping at a directory without a parent.
\<close>

fun searchDirs :: "filesystem \<Rightarrow> nat \<Rightarrow> string \<Rightarrow> string list" where
  "searchDirs fs 0 d = []"
| "searchDirs fs (Suc n) d =
     d # (if fs_has_parent_path fs d then searchDirs fs n (fs_parent_path fs d) else [])"

text \<open>The states of a catalog: the new one, and the state after a load from any of them.\<close>

inductive reachable :: "Catalog \<Rightarrow> bool" where
  reachable_new: "reachable newCatalog"
| reachable_load: "reachable cat \<Longrightarrow> reachable (snd (load fs cat fileName))"

subsection \<open>A POSIX file system for the examples\<close>

text \<open>
  The path operations of \<^verbatim>\<open>std::filesystem\<close> on POSIX, for paths without \<^verbatim>\<open>.\<close> and
  \<^verbatim>\<open>..\<close> components, and a file system given by the list of its files (absolute path
  and content), all readable.
\<close>

definition posix_is_absolute :: "string \<Rightarrow> bool" where
  "posix_is_absolute p = (case p of [] \<Rightarrow> False | c # _ \<Rightarrow> c = CHR ''/'')"

definition posix_append :: "string \<Rightarrow> string \<Rightarrow> string" where
  "posix_append d p =
     (if posix_is_absolute p then p
      else if d = [] \<or> last d = CHR ''/'' then d @ p
      else d @ ''/'' @ p)"

definition posix_parent_path :: "string \<Rightarrow> string" where
  "posix_parent_path p =
     (let d = rev (dropWhile (\<lambda>c. c \<noteq> CHR ''/'') (rev p));
          e = rev (dropWhile (\<lambda>c. c = CHR ''/'') (rev d))
      in if e = [] \<and> d \<noteq> [] then ''/'' else e)"

definition posix_absolute :: "string \<Rightarrow> string \<Rightarrow> string" where
  "posix_absolute cwd p = (if posix_is_absolute p then p else posix_append cwd p)"

definition posixFs :: "string \<Rightarrow> (string \<times> string) list \<Rightarrow> filesystem" where
  "posixFs cwd files =
     \<lparr>fs_is_absolute = posix_is_absolute,
      fs_exists = (\<lambda>p. map_of files (posix_absolute cwd p) \<noteq> None),
      fs_absolute = posix_absolute cwd,
      fs_current_path = cwd,
      fs_append = posix_append,
      fs_has_parent_path = (\<lambda>p. posix_parent_path p \<noteq> []),
      fs_parent_path = posix_parent_path,
      fs_open = (\<lambda>p. map_of files (posix_absolute cwd p))\<rparr>"

text \<open>
  The examples run in the directory \<^verbatim>\<open>/home/user/build\<close>; the only file is
  \<^verbatim>\<open>/home/user/courses.csv\<close>, in the parent directory, with the given content.
\<close>

definition exampleFs :: "string \<Rightarrow> filesystem" where
  "exampleFs content = posixFs ''/home/user/build'' [(''/home/user/courses.csv'', content)]"

definition exampleCatalog :: Catalog where
  "exampleCatalog =
     \<lparr>courseDirectory =
        [(''A1'', \<lparr>courseNumber = ''A1'', courseName = ''T'', prerequisites = [''B2'']\<rparr>)],
      sortedCourseIds = [''A1'']\<rparr>"

section \<open>Properties\<close>

subsection \<open>The identifier validator\<close>

lemma alpha_not_digit: "isalpha c \<Longrightarrow> \<not> isdigit c"
  by (auto simp: isalpha_def isdigit_def Let_def)

lemma no_letter_after_digit_Nil: "no_letter_after_digit []"
  by (simp add: no_letter_after_digit_def)

lemma no_letter_after_digit_Cons:
  "no_letter_after_digit (c # s) \<longleftrightarrow>
     (isdigit c \<longrightarrow> (\<forall>x\<in>set s. \<not> isalpha x)) \<and> no_letter_after_digit s"
  unfolding no_letter_after_digit_def
proof (rule iffI)
  assume h: "\<forall>i j. i < j \<and> j < length (c # s) \<and> isdigit ((c # s) ! i) \<longrightarrow> \<not> isalpha ((c # s) ! j)"
  have "isdigit c \<longrightarrow> (\<forall>x\<in>set s. \<not> isalpha x)"
    using h by (metis in_set_conv_nth length_Cons nth_Cons_0 nth_Cons_Suc zero_less_Suc Suc_less_eq)
  moreover have "\<forall>i j. i < j \<and> j < length s \<and> isdigit (s ! i) \<longrightarrow> \<not> isalpha (s ! j)"
    using h by (metis length_Cons nth_Cons_Suc Suc_less_eq)
  ultimately show "(isdigit c \<longrightarrow> (\<forall>x\<in>set s. \<not> isalpha x)) \<and>
      (\<forall>i j. i < j \<and> j < length s \<and> isdigit (s ! i) \<longrightarrow> \<not> isalpha (s ! j))"
    by blast
next
  assume "(isdigit c \<longrightarrow> (\<forall>x\<in>set s. \<not> isalpha x)) \<and>
      (\<forall>i j. i < j \<and> j < length s \<and> isdigit (s ! i) \<longrightarrow> \<not> isalpha (s ! j))"
  then show "\<forall>i j. i < j \<and> j < length (c # s) \<and> isdigit ((c # s) ! i) \<longrightarrow> \<not> isalpha ((c # s) ! j)"
    by (auto simp: nth_Cons split: nat.splits)
qed

lemma idScan_iff:
  "idScan hasLetter hasDigit s \<longleftrightarrow>
     (\<forall>c\<in>set s. isalpha c \<or> isdigit c) \<and>
     (hasLetter \<or> (\<exists>c\<in>set s. isalpha c)) \<and>
     (hasDigit \<or> (\<exists>c\<in>set s. isdigit c)) \<and>
     (hasDigit \<longrightarrow> (\<forall>c\<in>set s. \<not> isalpha c)) \<and>
     no_letter_after_digit s"
proof (induction s arbitrary: hasLetter hasDigit)
  case Nil
  show ?case by (simp add: no_letter_after_digit_Nil)
next
  case (Cons ch rest)
  show ?case
  proof (cases "isalpha ch")
    case True
    then have "\<not> isdigit ch" by (rule alpha_not_digit)
    with True Cons show ?thesis
      by (auto simp: no_letter_after_digit_Cons)
  next
    case False
    with Cons show ?thesis
      by (auto simp: no_letter_after_digit_Cons)
  qed
qed

lemma isCourseIdValid_iff: "isCourseIdValid tok \<longleftrightarrow> id_shape tok"
  by (cases tok) (auto simp: isCourseIdValid_def id_shape_def idScan_iff simp del: idScan.simps)

lemma isCourseIdValid_chars: "isCourseIdValid tok \<Longrightarrow> c \<in> set tok \<Longrightarrow> isalpha c \<or> isdigit c"
  by (simp add: isCourseIdValid_iff id_shape_def)

text \<open>
  C2. The validator returns true exactly on the tokens of the identifier shape: not empty,
  letters and digits only, at least one letter and at least one digit, and no letter after
  a digit. Every other token (another character anywhere, a letter after a digit, the empty
  token, letters only, digits only) gives false. The validator is a total function to
  \<^typ>\<open>bool\<close>: it has a value on every token and no other outcome.
\<close>

theorem validator_correct:
  "isCourseIdValid tok \<longleftrightarrow>
     tok \<noteq> [] \<and>
     (\<forall>c \<in> set tok. isalpha c \<or> isdigit c) \<and>
     (\<exists>c \<in> set tok. isalpha c) \<and>
     (\<exists>c \<in> set tok. isdigit c) \<and>
     (\<forall>i j. i < j \<and> j < length tok \<and> isdigit (tok ! i) \<longrightarrow> \<not> isalpha (tok ! j))"
  using isCourseIdValid_iff [of tok] by (simp add: id_shape_def no_letter_after_digit_def)

theorem validator_correct_witness:
  "isCourseIdValid ''CSCI200'' \<and> id_shape ''CSCI200'' \<and>
   \<not> isCourseIdValid ''200CSCI'' \<and> \<not> id_shape ''200CSCI'' \<and>
   \<not> isCourseIdValid ''CS-200'' \<and> \<not> isCourseIdValid [] \<and>
   \<not> isCourseIdValid ''CSCI'' \<and> \<not> isCourseIdValid ''200''"
proof -
  have a: "isCourseIdValid ''CSCI200''" and b: "\<not> isCourseIdValid ''200CSCI''"
    and c: "\<not> isCourseIdValid ''CS-200''" and d: "\<not> isCourseIdValid []"
    and e: "\<not> isCourseIdValid ''CSCI''" and f: "\<not> isCourseIdValid ''200''"
    by (simp_all add: isCourseIdValid_def isalpha_def isdigit_def)
  show ?thesis
    using a b c d e f validator_correct [of "''CSCI200''"] validator_correct [of "''200CSCI''"]
    unfolding id_shape_def no_letter_after_digit_def by blast
qed

subsection \<open>The outcomes of a load\<close>

lemma load_empty_name:
  "load fs cat [] =
     (\<lparr>ok = False, courses = 0, warnings = [''File name is empty.''],
       missingPrerequisites = [], path = []\<rparr>, cat)"
  by (simp add: load_def newLoadResult_def)

lemma load_not_located:
  "fileName \<noteq> [] \<Longrightarrow> resolveCourseFilePath fs fileName = None \<Longrightarrow>
   load fs cat fileName =
     (\<lparr>ok = False, courses = 0, warnings = [''Unable to locate file: '' @ fileName],
       missingPrerequisites = [], path = fileName\<rparr>, cat)"
  by (simp add: load_def newLoadResult_def)

lemma resolve_Some_nonempty: "resolveCourseFilePath fs fileName = Some p \<Longrightarrow> fileName \<noteq> []"
  by (auto simp: resolveCourseFilePath_def)

lemma load_not_opened:
  "resolveCourseFilePath fs fileName = Some p \<Longrightarrow> fs_open fs p = None \<Longrightarrow>
   load fs cat fileName =
     (\<lparr>ok = False, courses = 0, warnings = [''Unable to open file: '' @ p],
       missingPrerequisites = [], path = p\<rparr>, cat)"
  by (frule resolve_Some_nonempty) (simp add: load_def newLoadResult_def)

lemma load_no_record:
  "resolveCourseFilePath fs fileName = Some p \<Longrightarrow> fs_open fs p = Some inp \<Longrightarrow>
   loadedCourseDirectory (loadLines (getlines (CHR 0x0A) inp)) = [] \<Longrightarrow>
   load fs cat fileName =
     (\<lparr>ok = False, courses = 0, warnings = loadWarnings (loadLines (getlines (CHR 0x0A) inp)),
       missingPrerequisites = [], path = p\<rparr>, cat)"
  by (frule resolve_Some_nonempty) (simp add: load_def newLoadResult_def)

lemma load_committed:
  "resolveCourseFilePath fs fileName = Some p \<Longrightarrow> fs_open fs p = Some inp \<Longrightarrow>
   loadedCourseDirectory (loadLines (getlines (CHR 0x0A) inp)) = dir \<Longrightarrow> dir \<noteq> [] \<Longrightarrow>
   load fs cat fileName =
     (\<lparr>ok = True, courses = length dir,
       warnings = loadWarnings (loadLines (getlines (CHR 0x0A) inp)),
       missingPrerequisites = collectMissing dir, path = p\<rparr>,
      \<lparr>courseDirectory = dir, sortedCourseIds = sort (map fst dir)\<rparr>)"
  by (frule resolve_Some_nonempty) (simp add: load_def newLoadResult_def Let_def)

lemma load_ok_cases:
  assumes "ok (fst (load fs cat fileName))"
  obtains p inp where "resolveCourseFilePath fs fileName = Some p" and "fs_open fs p = Some inp"
    and "loadedCourseDirectory (loadLines (getlines (CHR 0x0A) inp)) \<noteq> []"
  using assms
  by (auto simp: load_def newLoadResult_def Let_def split: if_splits option.splits)

lemma load_failed_state: "\<not> ok (fst (load fs cat fileName)) \<Longrightarrow> snd (load fs cat fileName) = cat"
  by (auto simp: load_def newLoadResult_def Let_def split: if_splits option.splits)

subsection \<open>The prerequisite loop\<close>

lemma keepsField_snoc_old: "i < length flds \<Longrightarrow> keepsField (flds @ [x]) i = keepsField flds i"
  by (simp add: keepsField_def nth_append)

lemma keepsField_snoc_new:
  "keepsField (flds @ [x]) (length flds) \<longleftrightarrow>
     x \<noteq> [] \<and> isCourseIdValid (toUpper x) \<and> toUpper x \<notin> toUpper ` set flds"
  by (simp add: keepsField_def)

lemma keptPrereqs_snoc:
  "keptPrereqs (flds @ [x]) =
     keptPrereqs flds @
     (if x \<noteq> [] \<and> isCourseIdValid (toUpper x) \<and> toUpper x \<notin> toUpper ` set flds
      then [toUpper x] else [])"
proof -
  have a: "filter (keepsField (flds @ [x])) [0..<length flds] = filter (keepsField flds) [0..<length flds]"
    by (rule filter_cong) (simp_all add: keepsField_snoc_old)
  have b: "map (\<lambda>i. toUpper ((flds @ [x]) ! i)) (filter (keepsField flds) [0..<length flds]) =
           map (\<lambda>i. toUpper (flds ! i)) (filter (keepsField flds) [0..<length flds])"
    by (rule map_cong) (simp_all add: nth_append)
  show ?thesis
    by (simp add: keptPrereqs_def a b keepsField_snoc_new)
qed

lemma fieldWarnings_snoc_old:
  "i < length flds \<Longrightarrow> fieldWarnings cn (flds @ [x]) i = fieldWarnings cn flds i"
  by (simp add: fieldWarnings_def nth_append)

lemma prereqWarnings_snoc:
  "prereqWarnings cn (flds @ [x]) =
     prereqWarnings cn flds @
     (if x = [] then []
      else if \<not> isCourseIdValid (toUpper x) then [invalidPrereqWarning x cn]
      else if toUpper x \<in> toUpper ` set flds then [duplicatePrereqWarning (toUpper x) cn]
      else [])"
proof -
  have a: "map (fieldWarnings cn (flds @ [x])) [0..<length flds] = map (fieldWarnings cn flds) [0..<length flds]"
    by (rule map_cong) (simp_all add: fieldWarnings_snoc_old)
  show ?thesis
    by (simp add: prereqWarnings_def a) (simp add: fieldWarnings_def)
qed

lemma keptPrereqs_Nil: "keptPrereqs [] = []"
  by (simp add: keptPrereqs_def)

lemma prereqWarnings_Nil: "prereqWarnings cn [] = []"
  by (simp add: prereqWarnings_def)

lemma toUpper_Nil_iff: "toUpper x = [] \<longleftrightarrow> x = []"
  by (simp add: toUpper_def)

lemma isCourseIdValid_nonempty: "isCourseIdValid x \<Longrightarrow> x \<noteq> []"
  by (auto simp: isCourseIdValid_def)

lemma set_keptPrereqs:
  "set (keptPrereqs flds) = {u \<in> toUpper ` set flds. isCourseIdValid u}"
proof (induction flds rule: rev_induct)
  case Nil
  show ?case by (simp add: keptPrereqs_Nil)
next
  case (snoc x flds)
  have "isCourseIdValid (toUpper x) \<Longrightarrow> x \<noteq> []"
    using isCourseIdValid_nonempty toUpper_Nil_iff by blast
  with snoc show ?case
    by (auto simp: keptPrereqs_snoc)
qed

lemma distinct_keptPrereqs: "distinct (keptPrereqs flds)"
proof (induction flds rule: rev_induct)
  case Nil
  show ?case by (simp add: keptPrereqs_Nil)
next
  case (snoc x flds)
  then show ?case
    by (auto simp: keptPrereqs_snoc set_keptPrereqs)
qed

lemma prereq_fold:
  "\<exists>seen. fold (prereqStep cn) flds ([], [], ws) =
            (seen, keptPrereqs flds, ws @ prereqWarnings cn flds) \<and>
          set seen = set (keptPrereqs flds)"
proof (induction flds rule: rev_induct)
  case Nil
  show ?case by (simp add: keptPrereqs_Nil prereqWarnings_Nil)
next
  case (snoc x flds)
  then obtain seen where f: "fold (prereqStep cn) flds ([], [], ws) =
            (seen, keptPrereqs flds, ws @ prereqWarnings cn flds)"
    and s: "set seen = set (keptPrereqs flds)" by blast
  have st: "fold (prereqStep cn) (flds @ [x]) ([], [], ws) =
            prereqStep cn x (seen, keptPrereqs flds, ws @ prereqWarnings cn flds)"
    by (simp add: f)
  consider (empty) "x = []"
    | (invalid) "x \<noteq> []" "\<not> isCourseIdValid (toUpper x)"
    | (dup) "x \<noteq> []" "isCourseIdValid (toUpper x)" "toUpper x \<in> toUpper ` set flds"
    | (fresh) "x \<noteq> []" "isCourseIdValid (toUpper x)" "toUpper x \<notin> toUpper ` set flds"
    by blast
  then show ?case
  proof cases
    case empty
    then show ?thesis
      unfolding st by (simp add: s prereqStep_def keptPrereqs_snoc prereqWarnings_snoc)
  next
    case invalid
    then show ?thesis
      unfolding st by (simp add: s prereqStep_def keptPrereqs_snoc prereqWarnings_snoc)
  next
    case dup
    then have "toUpper x \<in> set seen"
      by (simp add: s set_keptPrereqs)
    with dup show ?thesis
      unfolding st by (simp add: s prereqStep_def keptPrereqs_snoc prereqWarnings_snoc)
  next
    case fresh
    then have "toUpper x \<notin> set seen"
      by (simp add: s set_keptPrereqs)
    with fresh show ?thesis
      unfolding st
      by (simp add: s prereqStep_def keptPrereqs_snoc prereqWarnings_snoc set_insort_insert Let_def)
  qed
qed

lemma prereqLoop_eq:
  "\<exists>seen. prereqLoop cn columns ws =
            (seen, keptPrereqs (drop 2 columns), ws @ prereqWarnings cn (drop 2 columns))"
  unfolding prereqLoop_def using prereq_fold [of cn "drop 2 columns" ws] by blast

subsection \<open>The loop over the lines\<close>

lemma loadLine_define:
  assumes "definesCourse l"
  shows "loadLine l st =
     \<lparr>lineNumber = lineNumber st + 1,
      loadedCourseDirectory = AList.update (lineCourseId l) (lineCourse l) (loadedCourseDirectory st),
      loadWarnings = loadWarnings st @
        prereqWarnings (lineCourseId l) (drop 2 (splitColumns (trim l))) @
        (if map_of (loadedCourseDirectory st) (lineCourseId l) \<noteq> None
         then [replacingWarning (lineCourseId l)] else [])\<rparr>"
proof -
  obtain seen where p: "prereqLoop (lineCourseId l) (splitColumns (trim l)) (loadWarnings st) =
      (seen, keptPrereqs (drop 2 (splitColumns (trim l))),
       loadWarnings st @ prereqWarnings (lineCourseId l) (drop 2 (splitColumns (trim l))))"
    using prereqLoop_eq by blast
  from assms have a: "trim l \<noteq> []" "\<not> length (splitColumns (trim l)) < 2"
    "isCourseIdValid (toUpper (splitColumns (trim l) ! 0))"
    by (auto simp: definesCourse_def)
  show ?thesis
    using a p by (simp add: loadLine_def Let_def lineCourseId_def lineCourse_def)
qed

lemma hd_replacingWarning: "hd (replacingWarning k) = CHR ''R''"
  by (simp add: replacingWarning_def)

lemma hd_skip_warnings:
  "hd (tooFewColumnsWarning n) = CHR ''S''" "hd (invalidIdWarning n c) = CHR ''S''"
  "hd (invalidPrereqWarning c k) = CHR ''S''" "hd (duplicatePrereqWarning c k) = CHR ''D''"
  by (simp_all add: tooFewColumnsWarning_def invalidIdWarning_def invalidPrereqWarning_def
      duplicatePrereqWarning_def)

lemma loadLine_skip:
  assumes "\<not> definesCourse l"
  shows "loadedCourseDirectory (loadLine l st) = loadedCourseDirectory st"
    and "\<exists>ws. loadWarnings (loadLine l st) = loadWarnings st @ ws \<and> (\<forall>w\<in>set ws. hd w = CHR ''S'')"
  using assms
  by (auto simp: loadLine_def Let_def definesCourse_def hd_skip_warnings)

lemma prereqWarnings_hd: "w \<in> set (prereqWarnings k flds) \<Longrightarrow> hd w = CHR ''S'' \<or> hd w = CHR ''D''"
  by (auto simp: prereqWarnings_def fieldWarnings_def hd_skip_warnings split: if_splits)

lemma loadLines_Nil: "loadLines [] = newLoadState"
  by (simp add: loadLines_def)

lemma loadLines_snoc: "loadLines (ls @ [l]) = loadLine l (loadLines ls)"
  by (simp add: loadLines_def)

lemma linesDefining_snoc:
  "linesDefining k (ls @ [l]) =
     linesDefining k ls @ (if definesCourse l \<and> lineCourseId l = k then [l] else [])"
  by (simp add: linesDefining_def)

lemma map_of_loadLines:
  "map_of (loadedCourseDirectory (loadLines ls)) k =
     (if linesDefining k ls = [] then None else Some (lineCourse (last (linesDefining k ls))))"
proof (induction ls rule: rev_induct)
  case Nil
  show ?case by (simp add: loadLines_Nil newLoadState_def linesDefining_def)
next
  case (snoc l ls)
  show ?case
  proof (cases "definesCourse l")
    case True
    then show ?thesis
      using snoc
      by (simp add: loadLines_snoc loadLine_define update_conv' linesDefining_snoc)
  next
    case False
    then show ?thesis
      using snoc
      by (simp add: loadLines_snoc loadLine_skip(1) linesDefining_snoc)
  qed
qed

lemma distinct_loadLines: "distinct (map fst (loadedCourseDirectory (loadLines ls)))"
proof (induction ls rule: rev_induct)
  case Nil
  show ?case by (simp add: loadLines_Nil newLoadState_def)
next
  case (snoc l ls)
  then show ?case
    by (cases "definesCourse l")
       (simp_all add: loadLines_snoc loadLine_define loadLine_skip(1) distinct_update)
qed

lemma keys_loadLines:
  "fst ` set (loadedCourseDirectory (loadLines ls)) = lineCourseId ` {l \<in> set ls. definesCourse l}"
proof (induction ls rule: rev_induct)
  case Nil
  show ?case by (simp add: loadLines_Nil newLoadState_def)
next
  case (snoc l ls)
  then show ?case
    by (cases "definesCourse l")
       (auto simp: loadLines_snoc loadLine_define loadLine_skip(1) dom_update)
qed

lemma loadLines_empty_iff:
  "loadedCourseDirectory (loadLines ls) = [] \<longleftrightarrow> (\<forall>l\<in>set ls. \<not> definesCourse l)"
proof -
  have "loadedCourseDirectory (loadLines ls) = [] \<longleftrightarrow>
        fst ` set (loadedCourseDirectory (loadLines ls)) = {}"
    by simp
  also have "\<dots> \<longleftrightarrow> (\<forall>l\<in>set ls. \<not> definesCourse l)"
    unfolding keys_loadLines by auto
  finally show ?thesis .
qed

lemma replacingWarning_inj: "replacingWarning a = replacingWarning b \<longleftrightarrow> a = b"
  by (simp add: replacingWarning_def)

lemma filter_no_replacing:
  "\<forall>w\<in>set ws. hd w = CHR ''S'' \<or> hd w = CHR ''D'' \<Longrightarrow>
   filter (\<lambda>w. w = replacingWarning k) ws = []"
  by (auto simp: filter_empty_conv hd_replacingWarning)

lemma count_replacing_loadLines:
  "length (filter (\<lambda>w. w = replacingWarning k) (loadWarnings (loadLines ls))) =
     length (linesDefining k ls) - 1"
proof (induction ls rule: rev_induct)
  case Nil
  show ?case by (simp add: loadLines_Nil newLoadState_def linesDefining_def)
next
  case (snoc l ls)
  show ?case
  proof (cases "definesCourse l")
    case True
    have p: "filter (\<lambda>w. w = replacingWarning k)
               (prereqWarnings (lineCourseId l) (drop 2 (splitColumns (trim l)))) = []"
      by (rule filter_no_replacing) (auto dest: prereqWarnings_hd)
    have m: "map_of (loadedCourseDirectory (loadLines ls)) (lineCourseId l) \<noteq> None \<longleftrightarrow>
             linesDefining (lineCourseId l) ls \<noteq> []"
      by (simp add: map_of_loadLines)
    show ?thesis
    proof (cases "linesDefining (lineCourseId l) ls = []")
      case e: True
      with m have "map_of (loadedCourseDirectory (loadLines ls)) (lineCourseId l) = None"
        by simp
      with snoc True e show ?thesis
        by (auto simp: loadLines_snoc loadLine_define linesDefining_snoc p replacingWarning_inj)
    next
      case ne: False
      with m have "map_of (loadedCourseDirectory (loadLines ls)) (lineCourseId l) \<noteq> None"
        by simp
      moreover from ne have "0 < length (linesDefining (lineCourseId l) ls)"
        by simp
      ultimately show ?thesis
        using snoc True
        by (auto simp: loadLines_snoc loadLine_define linesDefining_snoc p replacingWarning_inj)
    qed
  next
    case False
    obtain ws where w: "loadWarnings (loadLine l (loadLines ls)) = loadWarnings (loadLines ls) @ ws"
      and h: "\<forall>w\<in>set ws. hd w = CHR ''S''"
      using loadLine_skip(2) [OF False] by blast
    have "filter (\<lambda>w. w = replacingWarning k) ws = []"
      by (rule filter_no_replacing) (simp add: h)
    then show ?thesis
      using snoc False by (simp add: loadLines_snoc w linesDefining_snoc)
  qed
qed

subsection \<open>Missing prerequisites, the search for the file, reachable states\<close>

lemma dir_entry_line:
  assumes "(k, c) \<in> set (loadedCourseDirectory (loadLines ls))"
  shows "\<exists>l\<in>set ls. definesCourse l \<and> lineCourseId l = k \<and> c = lineCourse l"
proof -
  have "map_of (loadedCourseDirectory (loadLines ls)) k = Some c"
    using assms distinct_loadLines by (rule_tac map_of_is_SomeI) auto
  then have ne: "linesDefining k ls \<noteq> []" and c: "c = lineCourse (last (linesDefining k ls))"
    by (auto simp: map_of_loadLines split: if_splits)
  from ne have "last (linesDefining k ls) \<in> set (linesDefining k ls)"
    by (rule last_in_set)
  then show ?thesis
    using c by (auto simp: linesDefining_def)
qed

lemma lineCourse_prereqs_valid:
  "p \<in> set (prerequisites (lineCourse l)) \<Longrightarrow> isCourseIdValid p"
  by (simp add: lineCourse_def set_keptPrereqs)

lemma isCourseIdValid_no_space: "isCourseIdValid p \<Longrightarrow> CHR '' '' \<notin> set p"
  using isCourseIdValid_chars [of p "CHR '' ''"]
  by (auto simp: isalpha_def isdigit_def)

lemma missingEntry_prefix:
  "CHR '' '' \<notin> set p \<Longrightarrow> takeWhile (\<lambda>c. c \<noteq> CHR '' '') (missingEntry p k) = p"
  by (auto simp: missingEntry_def takeWhile_tail)

lemma missingEntry_inj:
  assumes "CHR '' '' \<notin> set p" and "CHR '' '' \<notin> set p'"
    and "missingEntry p k = missingEntry p' k'"
  shows "p = p' \<and> k = k'"
proof -
  have "p = p'"
    using missingEntry_prefix [OF assms(1), of k] missingEntry_prefix [OF assms(2), of k'] assms(3)
    by simp
  with assms(3) show ?thesis
    by (simp add: missingEntry_def)
qed

lemma missing_fold_set:
  "set (fold (\<lambda>prereq ms. if map_of dir prereq = None
                          then insort_insert (missingEntry prereq k) ms else ms) ps acc) =
     set acc \<union> {missingEntry p k | p. p \<in> set ps \<and> map_of dir p = None}"
  by (induction ps arbitrary: acc) (auto simp: set_insort_insert)

lemma missing_fold_sorted:
  "sorted acc \<Longrightarrow> distinct acc \<Longrightarrow>
   sorted (fold (\<lambda>prereq ms. if map_of dir prereq = None
                          then insort_insert (missingEntry prereq k) ms else ms) ps acc) \<and>
   distinct (fold (\<lambda>prereq ms. if map_of dir prereq = None
                          then insort_insert (missingEntry prereq k) ms else ms) ps acc)"
  by (induction ps arbitrary: acc) (auto simp: sorted_insort_insert distinct_insort_insert)

lemma missingStep_set:
  "set (missingStep dir e acc) =
     set acc \<union> {missingEntry p (fst e) | p. p \<in> set (prerequisites (snd e)) \<and> map_of dir p = None}"
  unfolding missingStep_def by (rule missing_fold_set)

lemma missingStep_sorted:
  "sorted acc \<Longrightarrow> distinct acc \<Longrightarrow>
   sorted (missingStep dir e acc) \<and> distinct (missingStep dir e acc)"
  unfolding missingStep_def by (rule missing_fold_sorted)

lemma missing_steps_set:
  "set (fold (missingStep dir) es acc) =
     set acc \<union> {missingEntry p k | k c p. (k, c) \<in> set es \<and> p \<in> set (prerequisites c) \<and>
                                          map_of dir p = None}"
proof (induction es arbitrary: acc)
  case Nil
  show ?case by simp
next
  case (Cons e es)
  show ?case
    by (cases e) (auto simp: Cons missingStep_set)
qed

lemma missing_steps_sorted:
  "sorted acc \<Longrightarrow> distinct acc \<Longrightarrow>
   sorted (fold (missingStep dir) es acc) \<and> distinct (fold (missingStep dir) es acc)"
  by (induction es arbitrary: acc) (simp_all add: missingStep_sorted)

lemma set_collectMissing:
  "set (collectMissing dir) =
     {missingEntry p k | k c p. (k, c) \<in> set dir \<and> p \<in> set (prerequisites c) \<and>
                               map_of dir p = None}"
  unfolding collectMissing_def by (simp add: missing_steps_set)

lemma sorted_collectMissing: "sorted (collectMissing dir) \<and> distinct (collectMissing dir)"
  unfolding collectMissing_def by (rule missing_steps_sorted) simp_all

lemma searchLoop_find:
  "searchLoop fs f depth dir =
     map_option (\<lambda>d. fs_absolute fs (fs_append fs d f))
       (List.find (\<lambda>d. fs_exists fs (fs_append fs d f))
          (searchDirs fs (nat (kMaxParentSearchDepth - depth)) dir))"
proof (induction fs f depth dir rule: searchLoop.induct)
  case (1 fs requested depth searchDir)
  show ?case
  proof (cases "depth < kMaxParentSearchDepth")
    case True
    then have n: "nat (kMaxParentSearchDepth - depth) =
                  Suc (nat (kMaxParentSearchDepth - (depth + 1)))"
      by simp
    show ?thesis
      using True 1
      by (subst searchLoop.simps) (simp add: n Let_def del: searchLoop.simps)
  next
    case False
    then show ?thesis
      by (subst searchLoop.simps) simp
  qed
qed

lemma reachable_invariant:
  "reachable cat \<Longrightarrow>
     sortedCourseIds cat = sort (map fst (courseDirectory cat)) \<and>
     distinct (map fst (courseDirectory cat))"
proof (induction rule: reachable.induct)
  case reachable_new
  show ?case by (simp add: newCatalog_def)
next
  case (reachable_load cat fs fileName)
  show ?case
  proof (cases "ok (fst (load fs cat fileName))")
    case True
    then obtain p inp where r: "resolveCourseFilePath fs fileName = Some p"
      and o: "fs_open fs p = Some inp"
      and d: "loadedCourseDirectory (loadLines (getlines (CHR 0x0A) inp)) \<noteq> []"
      by (rule load_ok_cases)
    show ?thesis
      by (simp add: load_committed [OF r o refl d] distinct_loadLines)
  next
    case False
    then show ?thesis
      using reachable_load.IH by (simp add: load_failed_state)
  qed
qed

subsection \<open>Claims about the outcome of a load\<close>

lemma load_ok_iff:
  "ok (fst (load fs cat fileName)) \<longleftrightarrow>
     (\<exists>p inp. resolveCourseFilePath fs fileName = Some p \<and> fs_open fs p = Some inp \<and>
              (\<exists>l\<in>set (getlines (CHR 0x0A) inp). definesCourse l))"
proof
  assume "ok (fst (load fs cat fileName))"
  then obtain p inp where "resolveCourseFilePath fs fileName = Some p" "fs_open fs p = Some inp"
    "loadedCourseDirectory (loadLines (getlines (CHR 0x0A) inp)) \<noteq> []"
    by (rule load_ok_cases)
  then show "\<exists>p inp. resolveCourseFilePath fs fileName = Some p \<and> fs_open fs p = Some inp \<and>
              (\<exists>l\<in>set (getlines (CHR 0x0A) inp). definesCourse l)"
    by (auto simp: loadLines_empty_iff)
next
  assume "\<exists>p inp. resolveCourseFilePath fs fileName = Some p \<and> fs_open fs p = Some inp \<and>
              (\<exists>l\<in>set (getlines (CHR 0x0A) inp). definesCourse l)"
  then obtain p inp where r: "resolveCourseFilePath fs fileName = Some p"
    and o: "fs_open fs p = Some inp"
    and d: "loadedCourseDirectory (loadLines (getlines (CHR 0x0A) inp)) \<noteq> []"
    by (auto simp: loadLines_empty_iff)
  show "ok (fst (load fs cat fileName))"
    by (simp add: load_committed [OF r o refl d])
qed

text \<open>
  C1. A load that fails leaves the catalog as it was, so \<open>get\<close> and \<open>ids\<close> answer as before
  the load. A load fails unless the file is located, opens, and has at least one line that
  defines a course; the catalog changes only in that case.
\<close>

theorem atomic_commit:
  assumes "load fs cat fileName = (r, cat')"
  shows "(\<not> ok r \<longrightarrow> cat' = cat \<and> (\<forall>i. get cat' i = get cat i) \<and> ids cat' = ids cat) \<and>
         (ok r \<longleftrightarrow>
            (\<exists>p inp. resolveCourseFilePath fs fileName = Some p \<and> fs_open fs p = Some inp \<and>
                     (\<exists>l\<in>set (getlines (CHR 0x0A) inp). definesCourse l))) \<and>
         (cat' \<noteq> cat \<longrightarrow> ok r)"
proof -
  have r: "r = fst (load fs cat fileName)" and c: "cat' = snd (load fs cat fileName)"
    using assms by simp_all
  have "\<not> ok r \<longrightarrow> cat' = cat"
    unfolding r c by (simp add: load_failed_state)
  moreover have "ok r \<longleftrightarrow>
            (\<exists>p inp. resolveCourseFilePath fs fileName = Some p \<and> fs_open fs p = Some inp \<and>
                     (\<exists>l\<in>set (getlines (CHR 0x0A) inp). definesCourse l))"
    unfolding r by (rule load_ok_iff)
  ultimately show ?thesis by blast
qed

theorem atomic_commit_witness:
  "\<not> ok (fst (load (exampleFs ''1A,T\<newline>'') exampleCatalog ''courses.csv'')) \<and>
   snd (load (exampleFs ''1A,T\<newline>'') exampleCatalog ''courses.csv'') = exampleCatalog \<and>
   ids (snd (load (exampleFs ''1A,T\<newline>'') exampleCatalog ''courses.csv'')) = [''A1'']"
proof -
  obtain r cat' where e: "load (exampleFs ''1A,T\<newline>'') exampleCatalog ''courses.csv'' = (r, cat')"
    by (cases "load (exampleFs ''1A,T\<newline>'') exampleCatalog ''courses.csv''")
  have "\<not> ok (fst (load (exampleFs ''1A,T\<newline>'') exampleCatalog ''courses.csv''))"
    by code_simp
  with e have n: "\<not> ok r" by simp
  have i: "ids exampleCatalog = [''A1'']"
    by (simp add: ids_def exampleCatalog_def)
  from atomic_commit [OF e] n have "cat' = exampleCatalog \<and> ids cat' = ids exampleCatalog"
    by blast
  with e n i show ?thesis by simp
qed

text \<open>
  C9. A load with the empty file name returns the failed result with the single warning
  \<^verbatim>\<open>File name is empty.\<close>, no count, no missing prerequisites and the empty path, and the
  catalog as it was. This holds for every file system, so the result does not depend on
  it.
\<close>

theorem load_empty_file_name:
  "load fs cat [] =
     (\<lparr>ok = False, courses = 0, warnings = [''File name is empty.''],
       missingPrerequisites = [], path = []\<rparr>, cat)"
  by (rule load_empty_name)

theorem load_empty_file_name_witness:
  "load (exampleFs ''A1,T'') exampleCatalog [] =
     (\<lparr>ok = False, courses = 0, warnings = [''File name is empty.''],
       missingPrerequisites = [], path = []\<rparr>, exampleCatalog)"
  using load_empty_file_name [of "exampleFs ''A1,T''" exampleCatalog] by simp

lemma resolve_Some_absolute:
  "resolveCourseFilePath fs fileName = Some p \<Longrightarrow> \<exists>q. p = fs_absolute fs q"
  by (auto simp: resolveCourseFilePath_def searchLoop_find split: if_splits)

text \<open>
  C10. When a non-empty file name is not located, the path of the result is the file name
  as given; when the file is located and does not open, the path is the located path,
  which is a result of \<^verbatim>\<open>std::filesystem::absolute\<close>. Both results have \<open>ok\<close> false.
\<close>

theorem failed_load_path:
  "(fileName \<noteq> [] \<and> resolveCourseFilePath fs fileName = None \<longrightarrow>
      path (fst (load fs cat fileName)) = fileName \<and> \<not> ok (fst (load fs cat fileName))) \<and>
   (resolveCourseFilePath fs fileName = Some p \<and> fs_open fs p = None \<longrightarrow>
      path (fst (load fs cat fileName)) = p \<and> \<not> ok (fst (load fs cat fileName)) \<and>
      (\<exists>q. p = fs_absolute fs q))"
  by (auto simp: load_not_located load_not_opened dest: resolve_Some_absolute)

theorem failed_load_path_witness:
  "path (fst (load (exampleFs []) newCatalog ''missing.csv'')) = ''missing.csv'' \<and>
   \<not> ok (fst (load (exampleFs []) newCatalog ''missing.csv'')) \<and>
   path (fst (load ((exampleFs [])\<lparr>fs_open := \<lambda>p. None\<rparr>) newCatalog ''courses.csv'')) =
     ''/home/user/courses.csv'' \<and>
   \<not> ok (fst (load ((exampleFs [])\<lparr>fs_open := \<lambda>p. None\<rparr>) newCatalog ''courses.csv''))"
proof -
  have a: "resolveCourseFilePath (exampleFs []) ''missing.csv'' = None"
    by code_simp
  have b: "resolveCourseFilePath ((exampleFs [])\<lparr>fs_open := \<lambda>p. None\<rparr>) ''courses.csv'' =
           Some ''/home/user/courses.csv''"
    by code_simp
  have c: "fs_open ((exampleFs [])\<lparr>fs_open := \<lambda>p. None\<rparr>) ''/home/user/courses.csv'' = None"
    by simp
  show ?thesis
    using failed_load_path [where fileName = "''missing.csv''" and fs = "exampleFs []" and cat = newCatalog]
      failed_load_path [where fileName = "''courses.csv''" and cat = newCatalog
        and fs = "(exampleFs [])\<lparr>fs_open := \<lambda>p. None\<rparr>" and p = "''/home/user/courses.csv''"]
      a b c by simp
qed

text \<open>
  C8. When a load succeeds, a second load of the same file name, with the file system as
  it was, returns the same result and leaves the same catalog: the same mapping and the
  same \<open>ids\<close>.
\<close>

theorem load_idempotent:
  assumes "load fs cat fileName = (r1, cat1)" and "ok r1"
    and "load fs cat1 fileName = (r2, cat2)"
  shows "cat2 = cat1 \<and> r2 = r1 \<and> (\<forall>i. get cat2 i = get cat1 i) \<and> ids cat2 = ids cat1"
proof -
  from assms(1,2) have "ok (fst (load fs cat fileName))" by simp
  then obtain p inp where r: "resolveCourseFilePath fs fileName = Some p"
    and o: "fs_open fs p = Some inp"
    and d: "loadedCourseDirectory (loadLines (getlines (CHR 0x0A) inp)) \<noteq> []"
    by (rule load_ok_cases)
  have "load fs cat1 fileName = load fs cat fileName"
    by (simp add: load_committed [OF r o refl d])
  with assms(1,3) show ?thesis by simp
qed

theorem load_idempotent_witness:
  "snd (load (exampleFs ''A1,T,B2\<newline>'') exampleCatalog ''courses.csv'') = exampleCatalog \<and>
   ok (fst (load (exampleFs ''A1,T,B2\<newline>'') newCatalog ''courses.csv''))"
proof -
  have e: "load (exampleFs ''A1,T,B2\<newline>'') newCatalog ''courses.csv'' =
     (\<lparr>ok = True, courses = 1, warnings = [],
       missingPrerequisites = [''B2 (referenced by A1)''],
       path = ''/home/user/courses.csv''\<rparr>, exampleCatalog)"
    by code_simp
  obtain r2 cat2 where f: "load (exampleFs ''A1,T,B2\<newline>'') exampleCatalog ''courses.csv'' = (r2, cat2)"
    by (cases "load (exampleFs ''A1,T,B2\<newline>'') exampleCatalog ''courses.csv''")
  have "cat2 = exampleCatalog"
    using load_idempotent [OF e _ f] by simp
  with e f show ?thesis by simp
qed

text \<open>
  C7. In every state that a catalog reaches, \<open>ids\<close> is the sorted list, without repetition,
  of the keys of the mapping that \<open>get\<close> reads. \<open>get\<close> and \<open>ids\<close> are functions of the
  catalog: they return an answer only, neither a new catalog nor warnings.
\<close>

theorem ids_sorted_keys:
  assumes "reachable cat"
  shows "ids cat = sorted_list_of_set (dom (get cat)) \<and>
         sorted (ids cat) \<and> distinct (ids cat) \<and> set (ids cat) = dom (get cat)"
proof -
  have g: "get cat = map_of (courseDirectory cat)"
    by (rule ext) (simp add: get_def)
  have d: "dom (get cat) = set (map fst (courseDirectory cat))"
    unfolding g by (simp add: dom_map_of_conv_image_fst)
  from assms have i: "ids cat = sort (map fst (courseDirectory cat))"
    and k: "distinct (map fst (courseDirectory cat))"
    by (simp_all add: reachable_invariant ids_def)
  have "sorted_list_of_set (dom (get cat)) = sort (map fst (courseDirectory cat))"
    unfolding d using k by (simp add: sorted_list_of_set_sort_remdups distinct_remdups_id del: set_map)
  moreover have "distinct (ids cat)"
    unfolding i using k by simp
  moreover have "set (ids cat) = dom (get cat)"
    unfolding i d by simp
  ultimately show ?thesis
    by (simp add: i)
qed

theorem ids_sorted_keys_witness:
  "reachable (snd (load (exampleFs ''B2,U\<newline>A1,T,B2'') newCatalog ''courses.csv'')) \<and>
   ids (snd (load (exampleFs ''B2,U\<newline>A1,T,B2'') newCatalog ''courses.csv'')) =
     [''A1'', ''B2''] \<and>
   dom (get (snd (load (exampleFs ''B2,U\<newline>A1,T,B2'') newCatalog ''courses.csv''))) =
     {''A1'', ''B2''}"
proof -
  have r: "reachable (snd (load (exampleFs ''B2,U\<newline>A1,T,B2'') newCatalog ''courses.csv''))"
    by (rule reachable_load) (rule reachable_new)
  have e: "ids (snd (load (exampleFs ''B2,U\<newline>A1,T,B2'') newCatalog ''courses.csv'')) =
     [''A1'', ''B2'']"
    by code_simp
  show ?thesis
    using ids_sorted_keys [OF r] r e by auto
qed

subsection \<open>Locating the file\<close>

lemma load_path_resolved:
  "resolveCourseFilePath fs fileName = Some p \<Longrightarrow> path (fst (load fs cat fileName)) = p"
  by (frule resolve_Some_nonempty)
     (simp add: load_def newLoadResult_def Let_def split: option.splits)

lemma resolve_relative:
  "fileName \<noteq> [] \<Longrightarrow> \<not> fs_is_absolute fs fileName \<Longrightarrow> \<not> fs_exists fs fileName \<Longrightarrow>
   resolveCourseFilePath fs fileName =
     map_option (\<lambda>d. fs_absolute fs (fs_append fs d fileName))
       (List.find (\<lambda>d. fs_exists fs (fs_append fs d fileName))
          (searchDirs fs 10 (fs_current_path fs)))"
  by (simp add: resolveCourseFilePath_def searchLoop_find kMaxParentSearchDepth_def)

lemma resolve_None_iff:
  assumes "fileName \<noteq> []"
  shows "resolveCourseFilePath fs fileName = None \<longleftrightarrow>
     \<not> fs_exists fs fileName \<and>
     (fs_is_absolute fs fileName \<or>
      (\<forall>d\<in>set (searchDirs fs 10 (fs_current_path fs)).
         \<not> fs_exists fs (fs_append fs d fileName)))"
proof (cases "fs_is_absolute fs fileName \<or> fs_exists fs fileName")
  case True
  with assms show ?thesis
    by (auto simp: resolveCourseFilePath_def)
next
  case False
  with assms show ?thesis
    by (auto simp: resolve_relative find_None_iff)
qed

lemma load_located:
  assumes "resolveCourseFilePath fs fileName = Some p"
  shows "load fs cat fileName =
     (case fs_open fs p of
        None \<Rightarrow>
          (\<lparr>ok = False, courses = 0, warnings = [''Unable to open file: '' @ p],
            missingPrerequisites = [], path = p\<rparr>, cat)
      | Some inp \<Rightarrow>
          (if loadedCourseDirectory (loadLines (getlines (CHR 0x0A) inp)) = [] then
             (\<lparr>ok = False, courses = 0,
               warnings = loadWarnings (loadLines (getlines (CHR 0x0A) inp)),
               missingPrerequisites = [], path = p\<rparr>, cat)
           else
             (\<lparr>ok = True,
               courses = length (loadedCourseDirectory (loadLines (getlines (CHR 0x0A) inp))),
               warnings = loadWarnings (loadLines (getlines (CHR 0x0A) inp)),
               missingPrerequisites =
                 collectMissing (loadedCourseDirectory (loadLines (getlines (CHR 0x0A) inp))),
               path = p\<rparr>,
              \<lparr>courseDirectory = loadedCourseDirectory (loadLines (getlines (CHR 0x0A) inp)),
               sortedCourseIds =
                 sort (map fst (loadedCourseDirectory (loadLines (getlines (CHR 0x0A) inp))))\<rparr>)))"
proof (cases "fs_open fs p")
  case None
  then show ?thesis
    by (simp add: load_not_opened [OF assms])
next
  case (Some inp)
  then show ?thesis
    by (cases "loadedCourseDirectory (loadLines (getlines (CHR 0x0A) inp)) = []")
       (simp_all add: load_no_record [OF assms] load_committed [OF assms])
qed

lemma loadWarnings_hd:
  "w \<in> set (loadWarnings (loadLines ls)) \<Longrightarrow>
   hd w = CHR ''S'' \<or> hd w = CHR ''D'' \<or> hd w = CHR ''R''"
proof (induction ls arbitrary: w rule: rev_induct)
  case Nil
  then show ?case by (simp add: loadLines_Nil newLoadState_def)
next
  case (snoc l ls)
  show ?case
  proof (cases "definesCourse l")
    case True
    with snoc show ?thesis
      by (auto simp: loadLines_snoc loadLine_define hd_replacingWarning
          dest: prereqWarnings_hd split: if_splits)
  next
    case False
    obtain ws where "loadWarnings (loadLine l (loadLines ls)) = loadWarnings (loadLines ls) @ ws"
      and "\<forall>w\<in>set ws. hd w = CHR ''S''"
      using loadLine_skip(2) [OF False] by blast
    with snoc show ?thesis
      by (auto simp: loadLines_snoc)
  qed
qed

lemma located_not_reported:
  assumes "resolveCourseFilePath fs fileName = Some p"
  shows "warnings (fst (load fs cat fileName)) \<noteq> [''Unable to locate file: '' @ fileName]"
proof (cases "fs_open fs p")
  case None
  then show ?thesis
    by (simp add: load_located [OF assms])
next
  case (Some inp)
  have "[''Unable to locate file: '' @ fileName] \<noteq> loadWarnings (loadLines (getlines (CHR 0x0A) inp))"
  proof
    assume "[''Unable to locate file: '' @ fileName] = loadWarnings (loadLines (getlines (CHR 0x0A) inp))"
    then have "''Unable to locate file: '' @ fileName \<in> set (loadWarnings (loadLines (getlines (CHR 0x0A) inp)))"
      by (metis list.set_intros(1))
    then show False
      by (auto dest: loadWarnings_hd)
  qed
  with Some show ?thesis
    by (auto simp: load_located [OF assms])
qed

text \<open>
  C3, as the code has it. The claim that a relative name which does not exist relative to
  the current directory makes the load fail does not hold: the file of the example is in
  the parent directory of the current one, and the load of its bare name succeeds.
\<close>

theorem exact_path_counterexample:
  "\<not> fs_is_absolute (exampleFs ''A1,T\<newline>'') ''courses.csv'' \<and>
   \<not> fs_exists (exampleFs ''A1,T\<newline>'') ''courses.csv'' \<and>
   fs_current_path (exampleFs ''A1,T\<newline>'') = ''/home/user/build'' \<and>
   ok (fst (load (exampleFs ''A1,T\<newline>'') newCatalog ''courses.csv'')) \<and>
   path (fst (load (exampleFs ''A1,T\<newline>'') newCatalog ''courses.csv'')) =
     ''/home/user/courses.csv''"
  by code_simp

text \<open>
  C3, amended. A load reads the path that \<^verbatim>\<open>resolveCourseFilePath\<close> finds for the name. An
  absolute name is taken as given and must exist. A relative name that exists as given is
  taken as given. Any other relative name is looked for in the current directory and then
  in its parents, in this order and in at most 10 directories: the first directory where
  the name exists gives the path. No path is found exactly when the name does not exist
  as given and either is absolute or exists in none of these directories; the load then
  returns the result with the warning \<^verbatim>\<open>Unable to locate file\<close> and the catalog as it
  was, and it has that warning list in no other case. When a path is found, it is the
  path of the result and the one path that is opened: the load is the result of reading
  the stream of that path, which is the failure to open it, the failure of a file without
  a course, or the commit of the courses read from it.
\<close>

theorem load_searches_parents:
  assumes "fileName \<noteq> []"
  shows "(fs_is_absolute fs fileName \<or> fs_exists fs fileName \<longrightarrow>
            resolveCourseFilePath fs fileName =
              (if fs_exists fs fileName then Some (fs_absolute fs fileName) else None)) \<and>
         (\<not> fs_is_absolute fs fileName \<and> \<not> fs_exists fs fileName \<longrightarrow>
            resolveCourseFilePath fs fileName =
              map_option (\<lambda>d. fs_absolute fs (fs_append fs d fileName))
                (List.find (\<lambda>d. fs_exists fs (fs_append fs d fileName))
                   (searchDirs fs 10 (fs_current_path fs)))) \<and>
         (resolveCourseFilePath fs fileName = None \<longleftrightarrow>
            \<not> fs_exists fs fileName \<and>
            (fs_is_absolute fs fileName \<or>
             (\<forall>d\<in>set (searchDirs fs 10 (fs_current_path fs)).
                \<not> fs_exists fs (fs_append fs d fileName)))) \<and>
         (resolveCourseFilePath fs fileName = None \<longrightarrow>
            load fs cat fileName =
              (\<lparr>ok = False, courses = 0, warnings = [''Unable to locate file: '' @ fileName],
                missingPrerequisites = [], path = fileName\<rparr>, cat)) \<and>
         (warnings (fst (load fs cat fileName)) = [''Unable to locate file: '' @ fileName] \<longleftrightarrow>
            resolveCourseFilePath fs fileName = None) \<and>
         (\<forall>p. resolveCourseFilePath fs fileName = Some p \<longrightarrow>
            path (fst (load fs cat fileName)) = p \<and>
            load fs cat fileName =
              (case fs_open fs p of
                 None \<Rightarrow>
                   (\<lparr>ok = False, courses = 0, warnings = [''Unable to open file: '' @ p],
                     missingPrerequisites = [], path = p\<rparr>, cat)
               | Some inp \<Rightarrow>
                   (if loadedCourseDirectory (loadLines (getlines (CHR 0x0A) inp)) = [] then
                      (\<lparr>ok = False, courses = 0,
                        warnings = loadWarnings (loadLines (getlines (CHR 0x0A) inp)),
                        missingPrerequisites = [], path = p\<rparr>, cat)
                    else
                      (\<lparr>ok = True,
                        courses =
                          length (loadedCourseDirectory (loadLines (getlines (CHR 0x0A) inp))),
                        warnings = loadWarnings (loadLines (getlines (CHR 0x0A) inp)),
                        missingPrerequisites =
                          collectMissing
                            (loadedCourseDirectory (loadLines (getlines (CHR 0x0A) inp))),
                        path = p\<rparr>,
                       \<lparr>courseDirectory =
                          loadedCourseDirectory (loadLines (getlines (CHR 0x0A) inp)),
                        sortedCourseIds =
                          sort (map fst
                            (loadedCourseDirectory (loadLines (getlines (CHR 0x0A) inp))))\<rparr>))))"
proof -
  have a: "fs_is_absolute fs fileName \<or> fs_exists fs fileName \<longrightarrow>
            resolveCourseFilePath fs fileName =
              (if fs_exists fs fileName then Some (fs_absolute fs fileName) else None)"
    using assms by (simp add: resolveCourseFilePath_def)
  have b: "\<not> fs_is_absolute fs fileName \<and> \<not> fs_exists fs fileName \<longrightarrow>
            resolveCourseFilePath fs fileName =
              map_option (\<lambda>d. fs_absolute fs (fs_append fs d fileName))
                (List.find (\<lambda>d. fs_exists fs (fs_append fs d fileName))
                   (searchDirs fs 10 (fs_current_path fs)))"
    using assms by (simp add: resolve_relative)
  note c = resolve_None_iff [OF assms, of fs]
  have d: "resolveCourseFilePath fs fileName = None \<longrightarrow>
            load fs cat fileName =
              (\<lparr>ok = False, courses = 0, warnings = [''Unable to locate file: '' @ fileName],
                missingPrerequisites = [], path = fileName\<rparr>, cat)"
    using assms by (simp add: load_not_located)
  have e: "warnings (fst (load fs cat fileName)) = [''Unable to locate file: '' @ fileName] \<longleftrightarrow>
            resolveCourseFilePath fs fileName = None"
  proof (cases "resolveCourseFilePath fs fileName")
    case None
    with d show ?thesis by simp
  next
    case (Some p)
    then show ?thesis
      using located_not_reported [of fs fileName p cat] by simp
  qed
  show ?thesis
    apply (intro conjI allI impI)
          apply (rule a [rule_format], assumption)
         apply (rule b [rule_format], assumption)
        apply (rule c)
       apply (rule d [rule_format], assumption)
      apply (rule e)
     apply (erule load_path_resolved)
    apply (erule load_located)
    done
qed

theorem load_searches_parents_witness:
  "searchDirs (exampleFs ''A1,T\<newline>'') 10 ''/home/user/build'' =
     [''/home/user/build'', ''/home/user'', ''/home'', ''/'', ''/'', ''/'', ''/'', ''/'', ''/'', ''/''] \<and>
   resolveCourseFilePath (exampleFs ''A1,T\<newline>'') ''courses.csv'' = Some ''/home/user/courses.csv'' \<and>
   load (exampleFs ''A1,T\<newline>'') newCatalog ''courses.csv'' =
     (\<lparr>ok = True, courses = 1, warnings = [], missingPrerequisites = [],
       path = ''/home/user/courses.csv''\<rparr>,
      \<lparr>courseDirectory =
         [(''A1'', \<lparr>courseNumber = ''A1'', courseName = ''T'', prerequisites = []\<rparr>)],
       sortedCourseIds = [''A1'']\<rparr>) \<and>
   warnings (fst (load (exampleFs ''A1,T\<newline>'') newCatalog ''courses.csv'')) \<noteq>
     [''Unable to locate file: courses.csv''] \<and>
   load (exampleFs ''A1,T\<newline>'') newCatalog ''other.csv'' =
     (\<lparr>ok = False, courses = 0, warnings = [''Unable to locate file: other.csv''],
       missingPrerequisites = [], path = ''other.csv''\<rparr>, newCatalog)"
proof -
  have n: "''courses.csv'' \<noteq> []" "''other.csv'' \<noteq> []"
    by simp_all
  have d: "searchDirs (exampleFs ''A1,T\<newline>'') 10 ''/home/user/build'' =
     [''/home/user/build'', ''/home/user'', ''/home'', ''/'', ''/'', ''/'', ''/'', ''/'', ''/'', ''/'']"
    by code_simp
  have r: "resolveCourseFilePath (exampleFs ''A1,T\<newline>'') ''courses.csv'' = Some ''/home/user/courses.csv''"
    by code_simp
  have o: "resolveCourseFilePath (exampleFs ''A1,T\<newline>'') ''other.csv'' = None"
    by code_simp
  have f: "fs_open (exampleFs ''A1,T\<newline>'') ''/home/user/courses.csv'' = Some ''A1,T\<newline>''"
    by code_simp
  have g: "loadedCourseDirectory (loadLines (getlines (CHR 0x0A) ''A1,T\<newline>'')) =
     [(''A1'', \<lparr>courseNumber = ''A1'', courseName = ''T'', prerequisites = []\<rparr>)]"
    by code_simp
  have w: "loadWarnings (loadLines (getlines (CHR 0x0A) ''A1,T\<newline>'')) = []"
    by code_simp
  have m: "collectMissing [(''A1'', \<lparr>courseNumber = ''A1'', courseName = ''T'', prerequisites = []\<rparr>)] = []"
    by code_simp
  show ?thesis
    using load_searches_parents [OF n(1), of "exampleFs ''A1,T\<newline>''" newCatalog]
      load_searches_parents [OF n(2), of "exampleFs ''A1,T\<newline>''" newCatalog] d r o
    by (simp add: f g w m)
qed

subsection \<open>Missing prerequisites of a load\<close>

lemma definesCourse_id_valid: "definesCourse l \<Longrightarrow> isCourseIdValid (lineCourseId l)"
  by (simp add: definesCourse_def lineCourseId_def)

lemma defined_not_missing:
  assumes "l \<in> set ls" and "definesCourse l"
  shows "missingEntry (lineCourseId l) k \<notin> set (collectMissing (loadedCourseDirectory (loadLines ls)))"
proof
  let ?dir = "loadedCourseDirectory (loadLines ls)"
  assume "missingEntry (lineCourseId l) k \<in> set (collectMissing ?dir)"
  then obtain k' c q where e: "missingEntry (lineCourseId l) k = missingEntry q k'"
    and m: "(k', c) \<in> set ?dir" and q: "q \<in> set (prerequisites c)" and n: "map_of ?dir q = None"
    unfolding set_collectMissing by blast
  from m obtain l' where "c = lineCourse l'"
    using dir_entry_line by blast
  with q have "isCourseIdValid q"
    by (simp add: lineCourse_prereqs_valid)
  then have "CHR '' '' \<notin> set q"
    by (rule isCourseIdValid_no_space)
  moreover have "CHR '' '' \<notin> set (lineCourseId l)"
    using assms(2) by (simp add: definesCourse_id_valid isCourseIdValid_no_space)
  ultimately have "lineCourseId l = q"
    using e missingEntry_inj by blast
  moreover have "lineCourseId l \<in> fst ` set ?dir"
    unfolding keys_loadLines using assms by blast
  ultimately show False
    using n by (simp add: map_of_eq_None_iff)
qed

text \<open>
  C4. When the file is located, opens and has a line that defines a course, the load
  succeeds, whatever the missing prerequisites are. Its list of missing prerequisites
  holds the entry \<^verbatim>\<open>q (referenced by k)\<close> for each course \<open>k\<close> of the committed mapping and
  each prerequisite \<open>q\<close> of that course that is not a key of the mapping, and nothing
  else; the list is sorted and has no repetition. An identifier that some line of the file
  defines, at any position, has no entry.
\<close>

theorem dangling_prerequisites:
  assumes "resolveCourseFilePath fs fileName = Some p" and "fs_open fs p = Some inp"
    and "\<exists>l\<in>set (getlines (CHR 0x0A) inp). definesCourse l"
    and "load fs cat fileName = (r, cat')"
  shows "ok r \<and>
         set (missingPrerequisites r) =
           {missingEntry q k | k c q. (k, c) \<in> set (courseDirectory cat') \<and>
                                      q \<in> set (prerequisites c) \<and> get cat' q = None} \<and>
         sorted (missingPrerequisites r) \<and> distinct (missingPrerequisites r) \<and>
         (\<forall>l\<in>set (getlines (CHR 0x0A) inp). definesCourse l \<longrightarrow>
            (\<forall>k. missingEntry (lineCourseId l) k \<notin> set (missingPrerequisites r)))"
proof -
  let ?dir = "loadedCourseDirectory (loadLines (getlines (CHR 0x0A) inp))"
  from assms(3) have d: "?dir \<noteq> []"
    by (simp add: loadLines_empty_iff)
  have l: "load fs cat fileName =
     (\<lparr>ok = True, courses = length ?dir,
       warnings = loadWarnings (loadLines (getlines (CHR 0x0A) inp)),
       missingPrerequisites = collectMissing ?dir, path = p\<rparr>,
      \<lparr>courseDirectory = ?dir, sortedCourseIds = sort (map fst ?dir)\<rparr>)"
    by (rule load_committed [OF assms(1,2) refl d])
  from l assms(4) have r: "ok r" "missingPrerequisites r = collectMissing ?dir"
    and c: "courseDirectory cat' = ?dir"
    by auto
  have "set (missingPrerequisites r) =
           {missingEntry q k | k c q. (k, c) \<in> set (courseDirectory cat') \<and>
                                      q \<in> set (prerequisites c) \<and> get cat' q = None}"
    unfolding r(2) get_def c by (rule set_collectMissing)
  moreover have "sorted (missingPrerequisites r) \<and> distinct (missingPrerequisites r)"
    unfolding r(2) by (rule sorted_collectMissing)
  moreover have "\<forall>l\<in>set (getlines (CHR 0x0A) inp). definesCourse l \<longrightarrow>
            (\<forall>k. missingEntry (lineCourseId l) k \<notin> set (missingPrerequisites r))"
    unfolding r(2) by (simp add: defined_not_missing)
  ultimately show ?thesis
    using r(1) by blast
qed

theorem dangling_prerequisites_witness:
  "ok (fst (load (exampleFs ''A1,T,B2,C3\<newline>C3,U\<newline>'') newCatalog ''courses.csv'')) \<and>
   missingPrerequisites (fst (load (exampleFs ''A1,T,B2,C3\<newline>C3,U\<newline>'') newCatalog ''courses.csv'')) =
     [''B2 (referenced by A1)''] \<and>
   missingEntry ''C3'' ''A1'' \<notin>
     set (missingPrerequisites (fst (load (exampleFs ''A1,T,B2,C3\<newline>C3,U\<newline>'') newCatalog ''courses.csv'')))"
proof -
  have a: "resolveCourseFilePath (exampleFs ''A1,T,B2,C3\<newline>C3,U\<newline>'') ''courses.csv'' =
           Some ''/home/user/courses.csv''"
    by code_simp
  have b: "fs_open (exampleFs ''A1,T,B2,C3\<newline>C3,U\<newline>'') ''/home/user/courses.csv'' =
           Some ''A1,T,B2,C3\<newline>C3,U\<newline>''"
    by code_simp
  have g: "getlines (CHR 0x0A) ''A1,T,B2,C3\<newline>C3,U\<newline>'' = [''A1,T,B2,C3'', ''C3,U'']"
    by code_simp
  have d: "definesCourse ''C3,U''" and i: "lineCourseId ''C3,U'' = ''C3''"
    by code_simp+
  have c: "\<exists>l\<in>set (getlines (CHR 0x0A) ''A1,T,B2,C3\<newline>C3,U\<newline>''). definesCourse l"
    using g d by simp
  have m: "missingPrerequisites (fst (load (exampleFs ''A1,T,B2,C3\<newline>C3,U\<newline>'') newCatalog ''courses.csv'')) =
     [''B2 (referenced by A1)'']"
    by code_simp
  obtain r cat' where e: "load (exampleFs ''A1,T,B2,C3\<newline>C3,U\<newline>'') newCatalog ''courses.csv'' = (r, cat')"
    by (cases "load (exampleFs ''A1,T,B2,C3\<newline>C3,U\<newline>'') newCatalog ''courses.csv''")
  from dangling_prerequisites [OF a b c e]
  have "ok r" and "\<forall>l\<in>set [''A1,T,B2,C3'', ''C3,U'']. definesCourse l \<longrightarrow>
            (\<forall>k. missingEntry (lineCourseId l) k \<notin> set (missingPrerequisites r))"
    unfolding g by blast+
  with d i have "ok r" and "missingEntry ''C3'' ''A1'' \<notin> set (missingPrerequisites r)"
    by auto
  with e m show ?thesis by simp
qed

subsection \<open>The prerequisites of a record\<close>

text \<open>
  C5. For a line that defines a course \<open>k\<close>, the record stored for \<open>k\<close> has as its
  prerequisites the fields from the third on that are kept, in upper case and in the order
  of the line: a field is kept when it is not empty, is valid in upper case and no earlier
  field has the same upper-case form, so each valid prerequisite is kept once, at its
  first occurrence. The warnings added for the line are, field by field in the order of
  the line: nothing for an empty field; the warning for an invalid prerequisite, with the
  field and \<open>k\<close>, for a field that is not valid in upper case; the warning for a duplicate,
  with the upper-case field and \<open>k\<close>, for a valid field that repeats an earlier one;
  nothing for a kept field. After them comes the warning for a replaced course, if any.
\<close>

theorem prerequisite_fields:
  assumes "definesCourse l"
    and "flds = drop 2 (splitColumns (trim l))" and "k = lineCourseId l"
  shows "map_of (loadedCourseDirectory (loadLine l st)) k =
           Some \<lparr>courseNumber = k, courseName = splitColumns (trim l) ! 1,
                 prerequisites =
                   map (\<lambda>i. toUpper (flds ! i))
                     (filter (\<lambda>i. flds ! i \<noteq> [] \<and> isCourseIdValid (toUpper (flds ! i)) \<and>
                                   toUpper (flds ! i) \<notin> toUpper ` set (take i flds))
                        [0..<length flds])\<rparr> \<and>
         distinct (prerequisites (the (map_of (loadedCourseDirectory (loadLine l st)) k))) \<and>
         loadWarnings (loadLine l st) =
           loadWarnings st @
           concat (map (\<lambda>i. if flds ! i = [] then []
                             else if \<not> isCourseIdValid (toUpper (flds ! i)) then
                               [invalidPrereqWarning (flds ! i) k]
                             else if toUpper (flds ! i) \<in> toUpper ` set (take i flds) then
                               [duplicatePrereqWarning (toUpper (flds ! i)) k]
                             else [])
                     [0..<length flds]) @
           (if map_of (loadedCourseDirectory st) k \<noteq> None then [replacingWarning k] else [])"
proof -
  have kp: "map (\<lambda>i. toUpper (flds ! i))
                     (filter (\<lambda>i. flds ! i \<noteq> [] \<and> isCourseIdValid (toUpper (flds ! i)) \<and>
                                   toUpper (flds ! i) \<notin> toUpper ` set (take i flds))
                        [0..<length flds]) = keptPrereqs flds"
    unfolding keptPrereqs_def keepsField_def by simp
  have pw: "concat (map (\<lambda>i. if flds ! i = [] then []
                             else if \<not> isCourseIdValid (toUpper (flds ! i)) then
                               [invalidPrereqWarning (flds ! i) k]
                             else if toUpper (flds ! i) \<in> toUpper ` set (take i flds) then
                               [duplicatePrereqWarning (toUpper (flds ! i)) k]
                             else [])
                     [0..<length flds]) = prereqWarnings k flds"
    unfolding prereqWarnings_def fieldWarnings_def by simp
  show ?thesis
    unfolding kp pw
    by (simp add: loadLine_define [OF assms(1)] update_conv' lineCourse_def
        distinct_keptPrereqs assms(2,3))
qed

theorem prerequisite_fields_witness:
  "definesCourse ''a1 , U,b2,B2,x-y,,C3'' \<and>
   drop 2 (splitColumns (trim ''a1 , U,b2,B2,x-y,,C3'')) = [''b2'', ''B2'', ''x-y'', [], ''C3''] \<and>
   map_of (loadedCourseDirectory (loadLine ''a1 , U,b2,B2,x-y,,C3'' newLoadState)) ''A1'' =
     Some \<lparr>courseNumber = ''A1'', courseName = ''U'', prerequisites = [''B2'', ''C3'']\<rparr> \<and>
   loadWarnings (loadLine ''a1 , U,b2,B2,x-y,,C3'' newLoadState) =
     [duplicatePrereqWarning ''B2'' ''A1'', invalidPrereqWarning ''x-y'' ''A1'']"
proof -
  have d: "definesCourse ''a1 , U,b2,B2,x-y,,C3''"
    by code_simp
  have f: "[''b2'', ''B2'', ''x-y'', [], ''C3''] = drop 2 (splitColumns (trim ''a1 , U,b2,B2,x-y,,C3''))"
    by code_simp
  have k: "''A1'' = lineCourseId ''a1 , U,b2,B2,x-y,,C3''"
    by code_simp
  have c: "map_of (loadedCourseDirectory (loadLine ''a1 , U,b2,B2,x-y,,C3'' newLoadState)) ''A1'' =
     Some \<lparr>courseNumber = ''A1'', courseName = ''U'', prerequisites = [''B2'', ''C3'']\<rparr>"
    by code_simp
  have w: "loadWarnings (loadLine ''a1 , U,b2,B2,x-y,,C3'' newLoadState) =
     [duplicatePrereqWarning ''B2'' ''A1'', invalidPrereqWarning ''x-y'' ''A1'']"
    by code_simp
  have "distinct (prerequisites (the (map_of (loadedCourseDirectory
          (loadLine ''a1 , U,b2,B2,x-y,,C3'' newLoadState)) ''A1'')))"
    using prerequisite_fields [OF d f k, of newLoadState] by blast
  with d f c w show ?thesis by simp
qed

subsection \<open>Lines that define the same course\<close>

lemma one_entry_per_key:
  "distinct (map fst xs) \<Longrightarrow> k \<in> fst ` set xs \<Longrightarrow> length (filter (\<lambda>e. fst e = k) xs) = 1"
proof (induction xs)
  case Nil
  then show ?case by simp
next
  case (Cons x xs)
  show ?case
  proof (cases "fst x = k")
    case True
    with Cons.prems have "k \<notin> fst ` set xs"
      by simp
    then have "filter (\<lambda>e. fst e = k) xs = []"
      unfolding filter_empty_conv by (metis image_eqI)
    with True show ?thesis by simp
  next
    case False
    with Cons show ?thesis by auto
  qed
qed

text \<open>
  C6. When two or more lines of the file define the identifier \<open>k\<close>, the load succeeds and
  the committed mapping has one entry for \<open>k\<close>: the record of the last of these lines,
  title and prerequisites. The count of courses is the number of different identifiers
  that the lines define. The warning \<^verbatim>\<open>Replacing existing course entry for k.\<close> occurs
  once for each of these lines after the first. Every identifier of the file, before or
  after these lines, has the record of its own last line.
\<close>

theorem duplicate_course_lines:
  assumes "resolveCourseFilePath fs fileName = Some p" and "fs_open fs p = Some inp"
    and "ls = getlines (CHR 0x0A) inp"
    and "2 \<le> length (linesDefining k ls)"
    and "load fs cat fileName = (r, cat')"
  shows "ok r \<and>
         get cat' k = Some (lineCourse (last (linesDefining k ls))) \<and>
         length (filter (\<lambda>e. fst e = k) (courseDirectory cat')) = 1 \<and>
         courses r = card (lineCourseId ` {l \<in> set ls. definesCourse l}) \<and>
         length (filter (\<lambda>w. w = replacingWarning k) (warnings r)) =
           length (linesDefining k ls) - 1 \<and>
         (\<forall>j. get cat' j =
            (if linesDefining j ls = [] then None
             else Some (lineCourse (last (linesDefining j ls)))))"
proof -
  let ?dir = "loadedCourseDirectory (loadLines ls)"
  from assms(4) have ne: "linesDefining k ls \<noteq> []"
    by auto
  then have km: "map_of ?dir k = Some (lineCourse (last (linesDefining k ls)))"
    by (simp add: map_of_loadLines)
  then have kk: "k \<in> fst ` set ?dir"
    by (metis map_of_eq_None_iff option.distinct(1))
  then have d: "loadedCourseDirectory (loadLines (getlines (CHR 0x0A) inp)) \<noteq> []"
    unfolding assms(3) by auto
  have l: "load fs cat fileName =
     (\<lparr>ok = True, courses = length ?dir, warnings = loadWarnings (loadLines ls),
       missingPrerequisites = collectMissing ?dir, path = p\<rparr>,
      \<lparr>courseDirectory = ?dir, sortedCourseIds = sort (map fst ?dir)\<rparr>)"
    unfolding assms(3) by (rule load_committed [OF assms(1,2) refl d])
  from l assms(5) have r: "ok r" "courses r = length ?dir" "warnings r = loadWarnings (loadLines ls)"
    and c: "courseDirectory cat' = ?dir"
    by auto
  have "length ?dir = card (fst ` set ?dir)"
    using distinct_card [OF distinct_loadLines, of ls] by simp
  then have n: "courses r = card (lineCourseId ` {l \<in> set ls. definesCourse l})"
    unfolding r(2) keys_loadLines .
  have o: "length (filter (\<lambda>e. fst e = k) (courseDirectory cat')) = 1"
    unfolding c by (rule one_entry_per_key [OF distinct_loadLines kk])
  have w: "length (filter (\<lambda>w. w = replacingWarning k) (warnings r)) =
           length (linesDefining k ls) - 1"
    unfolding r(3) by (rule count_replacing_loadLines)
  have g: "\<forall>j. get cat' j =
            (if linesDefining j ls = [] then None
             else Some (lineCourse (last (linesDefining j ls))))"
    unfolding get_def c by (simp add: map_of_loadLines)
  from g ne have "get cat' k = Some (lineCourse (last (linesDefining k ls)))"
    by simp
  with r(1) o n w g show ?thesis by blast
qed

theorem duplicate_course_lines_witness:
  "linesDefining ''A1'' (getlines (CHR 0x0A) ''A1,T,B2\<newline>B2,V\<newline>a1,U,C3\<newline>'') =
     [''A1,T,B2'', ''a1,U,C3''] \<and>
   load (exampleFs ''A1,T,B2\<newline>B2,V\<newline>a1,U,C3\<newline>'') newCatalog ''courses.csv'' =
     (\<lparr>ok = True, courses = 2, warnings = [replacingWarning ''A1''],
       missingPrerequisites = [''C3 (referenced by A1)''], path = ''/home/user/courses.csv''\<rparr>,
      \<lparr>courseDirectory =
         [(''A1'', \<lparr>courseNumber = ''A1'', courseName = ''U'', prerequisites = [''C3'']\<rparr>),
          (''B2'', \<lparr>courseNumber = ''B2'', courseName = ''V'', prerequisites = []\<rparr>)],
       sortedCourseIds = [''A1'', ''B2'']\<rparr>) \<and>
   get (snd (load (exampleFs ''A1,T,B2\<newline>B2,V\<newline>a1,U,C3\<newline>'') newCatalog ''courses.csv'')) ''A1'' =
     Some (lineCourse ''a1,U,C3'')"
proof -
  have a: "resolveCourseFilePath (exampleFs ''A1,T,B2\<newline>B2,V\<newline>a1,U,C3\<newline>'') ''courses.csv'' =
           Some ''/home/user/courses.csv''"
    by code_simp
  have b: "fs_open (exampleFs ''A1,T,B2\<newline>B2,V\<newline>a1,U,C3\<newline>'') ''/home/user/courses.csv'' =
           Some ''A1,T,B2\<newline>B2,V\<newline>a1,U,C3\<newline>''"
    by code_simp
  have g: "[''A1,T,B2'', ''B2,V'', ''a1,U,C3''] =
           getlines (CHR 0x0A) ''A1,T,B2\<newline>B2,V\<newline>a1,U,C3\<newline>''"
    by code_simp
  have d: "linesDefining ''A1'' [''A1,T,B2'', ''B2,V'', ''a1,U,C3''] = [''A1,T,B2'', ''a1,U,C3'']"
    by code_simp
  then have t: "2 \<le> length (linesDefining ''A1'' [''A1,T,B2'', ''B2,V'', ''a1,U,C3''])"
    by simp
  have e: "load (exampleFs ''A1,T,B2\<newline>B2,V\<newline>a1,U,C3\<newline>'') newCatalog ''courses.csv'' =
     (\<lparr>ok = True, courses = 2, warnings = [replacingWarning ''A1''],
       missingPrerequisites = [''C3 (referenced by A1)''], path = ''/home/user/courses.csv''\<rparr>,
      \<lparr>courseDirectory =
         [(''A1'', \<lparr>courseNumber = ''A1'', courseName = ''U'', prerequisites = [''C3'']\<rparr>),
          (''B2'', \<lparr>courseNumber = ''B2'', courseName = ''V'', prerequisites = []\<rparr>)],
       sortedCourseIds = [''A1'', ''B2'']\<rparr>)"
    by code_simp
  from duplicate_course_lines [OF a b g t e]
  have "get \<lparr>courseDirectory =
         [(''A1'', \<lparr>courseNumber = ''A1'', courseName = ''U'', prerequisites = [''C3'']\<rparr>),
          (''B2'', \<lparr>courseNumber = ''B2'', courseName = ''V'', prerequisites = []\<rparr>)],
       sortedCourseIds = [''A1'', ''B2'']\<rparr> ''A1'' =
     Some (lineCourse (last (linesDefining ''A1'' [''A1,T,B2'', ''B2,V'', ''a1,U,C3''])))"
    by blast
  with d e g show ?thesis by simp
qed

end
